theory Spec2Isabelle
  imports Main "HOL-Library.Sublist"
begin

section \<open>Strings, numbers and formatted values\<close>

text \<open>
  Go strings are byte sequences; they are modelled as \<open>string\<close> (a list of bytes).
  \<open>interface{}\<close> values handed to \<open>Where\<close> are a closed sum of the scalar kinds
  that occur as bound values; \<open>fmtV\<close> is \<open>fmt.Sprintf("%v", x)\<close> on them.
\<close>

datatype Value = IntV int | StrV string | BoolV bool | NilV

function natStr :: "nat \<Rightarrow> string" where
  "natStr n = (if n < 10 then [''0123456789'' ! n]
               else natStr (n div 10) @ [''0123456789'' ! (n mod 10)])"
  by pat_completeness auto
termination
  by (relation "measure id") auto

declare natStr.simps [simp del]

text \<open>\<open>fmt.Sprintf("%v", i)\<close> for a Go \<open>int\<close>: decimal, with a minus sign.\<close>

definition itoa :: "int \<Rightarrow> string" where
  "itoa i = (if i < 0 then CHR ''-'' # natStr (nat (- i)) else natStr (nat i))"

fun fmtV :: "Value \<Rightarrow> string" where
  "fmtV (IntV i) = itoa i"
| "fmtV (StrV s) = s"
| "fmtV (BoolV b) = (if b then ''true'' else ''false'')"
| "fmtV NilV = ''<nil>''"

text \<open>
  \<open>strings.ToLower\<close> and \<open>strings.ToUpper\<close>. Only the ASCII letters are mapped; no
  byte outside ASCII is turned into one of the letters of \<open>asc\<close> or \<open>desc\<close> by Go's
  Unicode tables, so the comparison made in \<open>OrderBy\<close> is decided by this mapping.
\<close>

definition toLowerChar :: "char \<Rightarrow> char" where
  "toLowerChar c = (let n = (of_char c :: nat) in
     if 65 \<le> n \<and> n \<le> 90 then char_of (n + 32) else c)"

definition toUpperChar :: "char \<Rightarrow> char" where
  "toUpperChar c = (let n = (of_char c :: nat) in
     if 97 \<le> n \<and> n \<le> 122 then char_of (n - 32) else c)"

definition ToLower :: "string \<Rightarrow> string" where
  "ToLower s = map toLowerChar s"

definition ToUpper :: "string \<Rightarrow> string" where
  "ToUpper s = map toUpperChar s"

text \<open>\<open>strings.Join(elems, sep)\<close>.\<close>

fun Join :: "string list \<Rightarrow> string \<Rightarrow> string" where
  "Join [] sep = []"
| "Join [x] sep = x"
| "Join (x # y # ys) sep = x @ sep @ Join (y # ys) sep"

text \<open>
  \<open>strings.ReplaceAll(s, old, new)\<close>: the non-overlapping occurrences of \<open>old\<close> are
  replaced from left to right. (For an empty \<open>old\<close> Go inserts \<open>new\<close> at every rune
  boundary; the only call site passes the constant \<open>[WHERE]\<close>.)
\<close>

function replaceAll :: "string \<Rightarrow> string \<Rightarrow> string \<Rightarrow> string" where
  "replaceAll [] old new = (if old = [] then new else [])"
| "replaceAll (c # cs) old new =
     (if old = [] then new @ c # replaceAll cs old new
      else if prefix old (c # cs) then new @ replaceAll (drop (length old) (c # cs)) old new
      else c # replaceAll cs old new)"
  by pat_completeness auto
termination
  by (relation "measure (\<lambda>(s, old, new). length s)") auto

section \<open>Blocks\<close>

text \<open>
  The closure held by a \<open>WhereFnBlock\<close> is represented by its body: the sequence of
  builder calls it makes on the sub-builder it receives.
\<close>

datatype Call =
    WhereCall string "Value list"
  | WhereNullCall string
  | WhereFnCall "Call list"
  | OrCall
  | OrderByCall string string
  | LimitCall int
  | OffsetCall int

datatype OrderByBlock = OrderByBlock string string

datatype LimitBlock = LimitBlock int

datatype OffsetBlock = OffsetBlock int

text \<open>The entries of \<open>wheres\<close>: column, bound value and operator for a \<open>WhereBlock\<close>.\<close>

datatype Block =
    WhereBlock string Value string
  | WhereNullBlock string
  | OrBlock
  | WhereFnBlock "Call list"

fun OrderByBlock_String :: "OrderByBlock \<Rightarrow> string" where
  "OrderByBlock_String (OrderByBlock column direction) = column @ '' '' @ direction"

fun LimitBlock_String :: "LimitBlock \<Rightarrow> string" where
  "LimitBlock_String (LimitBlock n) = ''LIMIT '' @ itoa n"

fun OffsetBlock_String :: "OffsetBlock \<Rightarrow> string" where
  "OffsetBlock_String (OffsetBlock n) = ''OFFSET '' @ itoa n"

fun Block_String :: "Block \<Rightarrow> string" where
  "Block_String (WhereBlock column v oper) = column @ '' '' @ oper @ '' '' @ ''[WHERE]''"
| "Block_String (WhereNullBlock column) = column @ '' IS NULL''"
| "Block_String OrBlock = ''OR''"
| "Block_String (WhereFnBlock fn) = []"

section \<open>The builder\<close>

record Builder =
  query :: string
  tableName :: string
  wheres :: "Block list"
  limit :: "LimitBlock option"
  offset :: "OffsetBlock option"
  prev :: "Block option"
  orderBys :: "OrderByBlock list"

definition Table :: "string \<Rightarrow> Builder" where
  "Table name = \<lparr>query = [], tableName = name, wheres = [], limit = None,
                 offset = None, prev = None, orderBys = []\<rparr>"

definition Builder_String :: "Builder \<Rightarrow> string" where
  "Builder_String b = query b"

definition Limit :: "Builder \<Rightarrow> int \<Rightarrow> Builder" where
  "Limit b n = b\<lparr>limit := Some (LimitBlock n)\<rparr>"

definition Offset :: "Builder \<Rightarrow> int \<Rightarrow> Builder" where
  "Offset b n = b\<lparr>offset := Some (OffsetBlock n)\<rparr>"

definition OrderBy :: "Builder \<Rightarrow> string \<Rightarrow> string \<Rightarrow> Builder" where
  "OrderBy b column direction =
     (let direction = (if ToLower direction \<noteq> ''asc'' \<and> ToLower direction \<noteq> ''desc''
                       then ''asc'' else direction);
          direction = ToUpper direction
      in b\<lparr>orderBys := orderBys b @ [OrderByBlock column direction]\<rparr>)"

definition Where :: "Builder \<Rightarrow> string \<Rightarrow> Value list \<Rightarrow> Builder" where
  "Where b column val =
     (if length val = 0 then b
      else let block = WhereBlock column (val ! 0) ''='';
               block = (if length val > 1
                        then WhereBlock column (val ! 1) (fmtV (val ! 0)) else block)
           in b\<lparr>wheres := wheres b @ [block]\<rparr>)"

definition WhereNull :: "Builder \<Rightarrow> string \<Rightarrow> Builder" where
  "WhereNull b column = b\<lparr>wheres := wheres b @ [WhereNullBlock column]\<rparr>"

definition WhereFn :: "Builder \<Rightarrow> Call list \<Rightarrow> Builder" where
  "WhereFn b fn = b\<lparr>wheres := wheres b @ [WhereFnBlock fn]\<rparr>"

definition Or :: "Builder \<Rightarrow> Builder" where
  "Or b = b\<lparr>wheres := wheres b @ [OrBlock]\<rparr>"

text \<open>One call of the fluent interface, and the invocation \<open>fn(b)\<close> of a closure.\<close>

fun applyCall :: "Builder \<Rightarrow> Call \<Rightarrow> Builder" where
  "applyCall b (WhereCall column val) = Where b column val"
| "applyCall b (WhereNullCall column) = WhereNull b column"
| "applyCall b (WhereFnCall fn) = WhereFn b fn"
| "applyCall b OrCall = Or b"
| "applyCall b (OrderByCall column direction) = OrderBy b column direction"
| "applyCall b (LimitCall n) = Limit b n"
| "applyCall b (OffsetCall n) = Offset b n"

definition callFn :: "Call list \<Rightarrow> Builder \<Rightarrow> Builder" where
  "callFn fn b = foldl applyCall b fn"

text \<open>
  The sub-builder literal
  \<open>&Builder{tableName: b.tableName, wheres: make([]Block, 0), orderBys: []Block{}}\<close>.
\<close>

definition subBuilder :: "Builder \<Rightarrow> Builder" where
  "subBuilder b = \<lparr>query = [], tableName = tableName b, wheres = [], limit = None,
                   offset = None, prev = None, orderBys = []\<rparr>"

text \<open>A statement as a caller builds it: \<open>Table(name)\<close> followed by chained calls.\<close>

definition build :: "string \<Rightarrow> Call list \<Rightarrow> Builder" where
  "build name calls = callFn calls (Table name)"

section \<open>Assembling the WHERE clause and extracting the values\<close>

text \<open>A size of closure bodies, by which the recursion into sub-builders ends.\<close>

fun callSize :: "Call \<Rightarrow> nat" where
  "callSize (WhereFnCall fn) = Suc (Suc (sum_list (map callSize fn)))"
| "callSize (WhereCall column val) = Suc 0"
| "callSize (WhereNullCall column) = Suc 0"
| "callSize OrCall = Suc 0"
| "callSize (OrderByCall column direction) = Suc 0"
| "callSize (LimitCall n) = Suc 0"
| "callSize (OffsetCall n) = Suc 0"

fun blockSize :: "Block \<Rightarrow> nat" where
  "blockSize (WhereFnBlock fn) = Suc (Suc (sum_list (map callSize fn)))"
| "blockSize (WhereBlock column v oper) = Suc 0"
| "blockSize (WhereNullBlock column) = Suc 0"
| "blockSize OrBlock = Suc 0"

definition blocksSize :: "Block list \<Rightarrow> nat" where
  "blocksSize bs = sum_list (map blockSize bs)"

lemma blocksSize_applyCall:
  "blocksSize (wheres (applyCall b c)) \<le> blocksSize (wheres b) + callSize c"
  by (cases c) (simp_all add: blocksSize_def Where_def WhereNull_def WhereFn_def Or_def
      OrderBy_def Limit_def Offset_def Let_def)

lemma blocksSize_callFn:
  "blocksSize (wheres (callFn fn b)) \<le> blocksSize (wheres b) + sum_list (map callSize fn)"
proof (induction fn arbitrary: b)
  case Nil
  then show ?case by (simp add: callFn_def)
next
  case (Cons c fn)
  have "blocksSize (wheres (callFn fn (applyCall b c)))
          \<le> blocksSize (wheres (applyCall b c)) + sum_list (map callSize fn)"
    by (rule Cons.IH)
  also have "\<dots> \<le> blocksSize (wheres b) + callSize c + sum_list (map callSize fn)"
    using blocksSize_applyCall [of b c] by simp
  finally show ?case by (simp add: callFn_def)
qed

lemma blocksSize_subBuilder:
  "blocksSize (wheres (callFn fn (subBuilder b))) < blocksSize (WhereFnBlock fn # rest)"
  using blocksSize_callFn [of fn "subBuilder b"]
  by (simp add: subBuilder_def blocksSize_def)

text \<open>
  The joiner written before the fragment of \<open>block\<close> at index \<open>idx\<close>, from the field
  \<open>prev\<close> of the builder.
\<close>

definition joiner :: "Builder \<Rightarrow> nat \<Rightarrow> Block \<Rightarrow> string" where
  "joiner b idx block =
     (if idx > 0 then
        (if prev b = Some OrBlock then '' OR ''
         else if block \<noteq> OrBlock then '' AND '' else [])
      else [])"

text \<open>
  The loop of \<open>buildWhereClause\<close> over \<open>b.wheres\<close>, from index \<open>idx\<close> on: \<open>subSB\<close> is the
  text written so far, \<open>whereValue\<close> the placeholder counter; the builder is threaded
  because each iteration assigns \<open>b.prev\<close>. The result is the pair the function returns
  and the builder as it is left.
\<close>

function whereLoop ::
  "Builder \<Rightarrow> Block list \<Rightarrow> nat \<Rightarrow> string \<Rightarrow> int \<Rightarrow> (string \<times> int) \<times> Builder" where
  "whereLoop b [] idx subSB whereValue = ((subSB, whereValue), b)"
| "whereLoop b (WhereBlock column v oper # rest) idx subSB whereValue =
     (let innerSB = replaceAll (Block_String (WhereBlock column v oper)) ''[WHERE]''
                      (''$'' @ itoa (whereValue + 1))
      in whereLoop (b\<lparr>prev := Some (WhereBlock column v oper)\<rparr>) rest (idx + 1)
           (subSB @ joiner b idx (WhereBlock column v oper) @ innerSB) (whereValue + 1))"
| "whereLoop b (WhereNullBlock column # rest) idx subSB whereValue =
     (let innerSB = Block_String (WhereNullBlock column)
      in whereLoop (b\<lparr>prev := Some (WhereNullBlock column)\<rparr>) rest (idx + 1)
           (subSB @ joiner b idx (WhereNullBlock column) @ innerSB) whereValue)"
| "whereLoop b (OrBlock # rest) idx subSB whereValue =
     whereLoop (b\<lparr>prev := Some OrBlock\<rparr>) rest (idx + 1)
       (subSB @ joiner b idx OrBlock) whereValue"
| "whereLoop b (WhereFnBlock fn # rest) idx subSB whereValue =
     (let innerBuilder = callFn fn (subBuilder b);
          ((innerSubQuery, innerSubWhereValue), innerBuilder') =
             whereLoop innerBuilder (wheres innerBuilder) 0 [] whereValue;
          innerSB = ''('' @ innerSubQuery @ '')''
      in whereLoop (b\<lparr>prev := Some (WhereFnBlock fn)\<rparr>) rest (idx + 1)
           (subSB @ joiner b idx (WhereFnBlock fn) @ innerSB) innerSubWhereValue)"
  by pat_completeness auto
termination
  by (relation "measure (\<lambda>(b, bs, idx, subSB, whereValue). blocksSize bs)")
     (simp_all add: blocksSize_subBuilder, simp_all add: blocksSize_def)

definition buildWhereClause :: "Builder \<Rightarrow> int \<Rightarrow> (string \<times> int) \<times> Builder" where
  "buildWhereClause b whereValue = whereLoop b (wheres b) 0 [] whereValue"

text \<open>The loop of \<open>recursiveValues\<close> over \<open>b.wheres\<close>.\<close>

function valuesLoop :: "Builder \<Rightarrow> Block list \<Rightarrow> Value list \<Rightarrow> Value list" where
  "valuesLoop b [] vals = vals"
| "valuesLoop b (WhereBlock column v oper # rest) vals = valuesLoop b rest (vals @ [v])"
| "valuesLoop b (WhereNullBlock column # rest) vals = valuesLoop b rest vals"
| "valuesLoop b (OrBlock # rest) vals = valuesLoop b rest vals"
| "valuesLoop b (WhereFnBlock fn # rest) vals =
     (let wBuilder = callFn fn (subBuilder b)
      in valuesLoop b rest (valuesLoop wBuilder (wheres wBuilder) vals))"
  by pat_completeness auto
termination
  by (relation "measure (\<lambda>(b, bs, vals). blocksSize bs)")
     (simp_all add: blocksSize_subBuilder, simp_all add: blocksSize_def)

definition recursiveValues :: "Builder \<Rightarrow> Value list \<Rightarrow> Value list" where
  "recursiveValues b vals = valuesLoop b (wheres b) vals"

definition Values :: "Builder \<Rightarrow> Value list" where
  "Values b = recursiveValues b []"

section \<open>Rendering\<close>

definition WriteString :: "Builder \<Rightarrow> string \<Rightarrow> Builder" where
  "WriteString b s = b\<lparr>query := query b @ s\<rparr>"

text \<open>The loop of \<open>Get\<close> over \<open>b.orderBys\<close>.\<close>

fun orderByLoop :: "Builder \<Rightarrow> OrderByBlock list \<Rightarrow> nat \<Rightarrow> Builder" where
  "orderByLoop b [] idx = b"
| "orderByLoop b (block # rest) idx =
     (let b = (if idx > 0 then WriteString b '', '' else b);
          b = WriteString b (OrderByBlock_String block)
      in orderByLoop b rest (idx + 1))"

definition Get :: "Builder \<Rightarrow> string list \<Rightarrow> Builder" where
  "Get b columns =
     (let columns = (if length columns = 0 then columns @ [''*''] else columns);
          b = WriteString b ''SELECT '';
          b = WriteString b (Join columns '', '');
          b = WriteString b '' FROM '';
          b = WriteString b (tableName b);
          b = (if length (wheres b) > 0
               then (let b = WriteString b '' WHERE '';
                         ((whereQuery, n), b) = buildWhereClause b 0
                     in WriteString b whereQuery)
               else b);
          b = (if length (orderBys b) > 0
               then orderByLoop (WriteString b '' ORDER BY '') (orderBys b) 0
               else b);
          b = (case limit b of None \<Rightarrow> b
               | Some l \<Rightarrow> WriteString (WriteString b '' '') (LimitBlock_String l));
          b = (case offset b of None \<Rightarrow> b
               | Some off \<Rightarrow> WriteString (WriteString b '' '') (OffsetBlock_String off))
      in WriteString b '';'')"

text \<open>The optional parts of the rendered statement.\<close>

definition whereText :: "Builder \<Rightarrow> string" where
  "whereText b = (if wheres b = [] then [] else '' WHERE '' @ fst (fst (buildWhereClause b 0)))"

definition orderByText :: "Builder \<Rightarrow> string" where
  "orderByText b = (if orderBys b = [] then []
             else '' ORDER BY '' @ Join (map OrderByBlock_String (orderBys b)) '', '')"

definition limitText :: "Builder \<Rightarrow> string" where
  "limitText b = (case limit b of None \<Rightarrow> [] | Some l \<Rightarrow> '' '' @ LimitBlock_String l)"

definition offsetText :: "Builder \<Rightarrow> string" where
  "offsetText b = (case offset b of None \<Rightarrow> [] | Some off \<Rightarrow> '' '' @ OffsetBlock_String off)"

section \<open>Properties of the two loops\<close>

lemma subBuilder_cong: "tableName b = tableName b' \<Longrightarrow> subBuilder b = subBuilder b'"
  by (simp add: subBuilder_def)

lemma subBuilder_prev [simp]: "subBuilder (b\<lparr>prev := p\<rparr>) = subBuilder b"
  by (simp add: subBuilder_def)

lemma whereLoop_acc:
  "whereLoop b bs idx sb wv =
     ((sb @ fst (fst (whereLoop b bs idx [] wv)), snd (fst (whereLoop b bs idx [] wv))),
      snd (whereLoop b bs idx [] wv))"
proof (induction bs arbitrary: b idx sb wv)
  case Nil
  then show ?case by simp
next
  case (Cons x rest)
  show ?case
  proof (cases x)
    case (WhereBlock c v oper)
    show ?thesis
      unfolding WhereBlock whereLoop.simps Let_def
      by (subst Cons.IH, subst (2 3 4) Cons.IH) simp
  next
    case (WhereNullBlock c)
    show ?thesis
      unfolding WhereNullBlock whereLoop.simps Let_def
      by (subst Cons.IH, subst (2 3 4) Cons.IH) simp
  next
    case OrBlock
    show ?thesis
      unfolding OrBlock whereLoop.simps Let_def
      by (subst Cons.IH, subst (2 3 4) Cons.IH) simp
  next
    case (WhereFnBlock fn)
    show ?thesis
      unfolding WhereFnBlock whereLoop.simps Let_def split_beta
      by (subst Cons.IH, subst (2 3 4) Cons.IH) simp
  qed
qed


lemma joiner_cong:
  "(idx > 0) = (idx' > 0) \<Longrightarrow> (prev b = Some OrBlock) = (prev b' = Some OrBlock)
     \<Longrightarrow> joiner b idx blk = joiner b' idx' blk"
  by (simp add: joiner_def)

lemma whereLoop_builder_cong:
  "tableName b = tableName b' \<Longrightarrow> prev b = prev b'
     \<Longrightarrow> fst (whereLoop b bs idx sb wv) = fst (whereLoop b' bs idx sb wv)"
proof (induction bs arbitrary: b b' idx sb wv)
  case Nil
  then show ?case by simp
next
  case (Cons x rest)
  have sub: "subBuilder b = subBuilder b'"
    using Cons.prems by (simp add: subBuilder_def)
  have j: "joiner b idx blk = joiner b' idx blk" for blk
    using Cons.prems by (simp add: joiner_def)
  have step: "fst (whereLoop (b\<lparr>prev := p\<rparr>) rest i s n)
                = fst (whereLoop (b'\<lparr>prev := p\<rparr>) rest i s n)" for i s n p
    by (rule Cons.IH) (simp_all add: Cons.prems)
  show ?case
    by (cases x) (simp_all add: Let_def split_beta sub j step)
qed

lemma whereLoop_idx_positive:
  "idx > 0 \<Longrightarrow> idx' > 0 \<Longrightarrow> whereLoop b bs idx sb wv = whereLoop b bs idx' sb wv"
proof (induction bs arbitrary: b idx idx' sb wv)
  case Nil
  then show ?case by simp
next
  case (Cons x rest)
  have j: "joiner b idx blk = joiner b idx' blk" for blk
    using Cons.prems by (simp add: joiner_def)
  have step: "whereLoop c rest (Suc idx) s n = whereLoop c rest (Suc idx') s n" for c s n
    by (rule Cons.IH) simp_all
  show ?case
    by (cases x) (simp_all add: Let_def split_beta j step)
qed

lemma whereLoop_append:
  "whereLoop b (xs @ ys) idx sb wv =
     whereLoop (snd (whereLoop b xs idx sb wv)) ys (idx + length xs)
       (fst (fst (whereLoop b xs idx sb wv))) (snd (fst (whereLoop b xs idx sb wv)))"
proof (induction xs arbitrary: b idx sb wv)
  case Nil
  then show ?case by simp
next
  case (Cons x rest)
  show ?case
    by (cases x) (simp_all add: Let_def split_beta Cons.IH)
qed

lemma whereLoop_builder:
  "snd (whereLoop b bs idx sb wv) = (if bs = [] then b else b\<lparr>prev := Some (last bs)\<rparr>)"
proof (induction bs arbitrary: b idx sb wv)
  case Nil
  then show ?case by simp
next
  case (Cons x rest)
  show ?case
    by (cases x) (simp_all add: Let_def split_beta Cons.IH)
qed

lemma valuesLoop_builder_cong:
  "tableName b = tableName b' \<Longrightarrow> valuesLoop b bs vals = valuesLoop b' bs vals"
proof (induction bs arbitrary: vals)
  case Nil
  then show ?case by simp
next
  case (Cons x rest)
  have sub: "subBuilder b = subBuilder b'"
    using Cons.prems by (simp add: subBuilder_def)
  show ?case
    by (cases x) (simp_all add: Let_def sub Cons.IH [OF Cons.prems])
qed

lemma valuesLoop_acc: "valuesLoop b bs vals = vals @ valuesLoop b bs []"
proof (induction "blocksSize bs" arbitrary: b bs vals rule: less_induct)
  case less
  show ?case
  proof (cases bs)
    case Nil
    then show ?thesis by simp
  next
    case (Cons x rest)
    have lt: "blocksSize rest < blocksSize bs"
      using Cons by (cases x) (simp_all add: blocksSize_def)
    have IH: "valuesLoop c rest vs = vs @ valuesLoop c rest []" for c vs
      by (rule less [OF lt])
    show ?thesis
    proof (cases x)
      case (WhereBlock c v oper)
      show ?thesis
        unfolding Cons WhereBlock valuesLoop.simps
        by (subst IH, subst (2) IH) simp
    next
      case (WhereNullBlock c)
      show ?thesis
        unfolding Cons WhereNullBlock valuesLoop.simps by (rule IH)
    next
      case OrBlock
      show ?thesis
        unfolding Cons OrBlock valuesLoop.simps by (rule IH)
    next
      case (WhereFnBlock fn)
      have lt2: "blocksSize (wheres (callFn fn (subBuilder b))) < blocksSize bs"
        unfolding Cons WhereFnBlock by (rule blocksSize_subBuilder)
      have IH2: "valuesLoop (callFn fn (subBuilder b)) (wheres (callFn fn (subBuilder b))) vals
                   = vals @ valuesLoop (callFn fn (subBuilder b)) (wheres (callFn fn (subBuilder b))) []"
        by (rule less [OF lt2])
      show ?thesis
        unfolding Cons WhereFnBlock valuesLoop.simps Let_def
        by (subst IH, subst (2) IH, subst IH2) simp
    qed
  qed
qed

lemma valuesLoop_append:
  "valuesLoop b (xs @ ys) vals = valuesLoop b ys (valuesLoop b xs vals)"
proof (induction xs arbitrary: vals)
  case Nil
  then show ?case by simp
next
  case (Cons x rest)
  show ?case
    by (cases x) (simp_all add: Let_def Cons.IH)
qed

lemma whereLoop_counter:
  "snd (fst (whereLoop b bs idx sb wv)) = wv + int (length (valuesLoop b bs []))"
proof (induction b bs idx sb wv rule: whereLoop.induct)
  case (1 b idx subSB whereValue)
  then show ?case by simp
next
  case (2 b column v oper rest idx subSB whereValue)
  have "valuesLoop b rest [v] = [v] @ valuesLoop b rest []"
    by (rule valuesLoop_acc)
  moreover have "valuesLoop (b\<lparr>prev := Some (WhereBlock column v oper)\<rparr>) rest []
                   = valuesLoop b rest []"
    by (rule valuesLoop_builder_cong) simp
  ultimately show ?case using 2 by (simp add: Let_def)
next
  case (3 b column rest idx subSB whereValue)
  have "valuesLoop (b\<lparr>prev := Some (WhereNullBlock column)\<rparr>) rest []
                   = valuesLoop b rest []"
    by (rule valuesLoop_builder_cong) simp
  then show ?case using 3 by (simp add: Let_def)
next
  case (4 b rest idx subSB whereValue)
  have "valuesLoop (b\<lparr>prev := Some OrBlock\<rparr>) rest [] = valuesLoop b rest []"
    by (rule valuesLoop_builder_cong) simp
  then show ?case using 4 by simp
next
  case (5 b fn rest idx subSB whereValue)
  define inner where "inner = callFn fn (subBuilder b)"
  define r where "r = whereLoop inner (wheres inner) 0 [] whereValue"
  have a: "snd (fst r) = whereValue + int (length (valuesLoop inner (wheres inner) []))"
    unfolding r_def inner_def by (rule 5(1)) simp
  have "snd (fst (whereLoop (b\<lparr>prev := Some (WhereFnBlock fn)\<rparr>) rest (idx + 1)
          (subSB @ joiner b idx (WhereFnBlock fn) @ ''('' @ fst (fst r) @ '')'') (snd (fst r))))
        = snd (fst r) + int (length (valuesLoop (b\<lparr>prev := Some (WhereFnBlock fn)\<rparr>) rest []))"
    unfolding r_def inner_def
    by (rule 5(2) [OF refl refl prod.collapse prod.collapse refl])
  moreover have "valuesLoop (b\<lparr>prev := Some (WhereFnBlock fn)\<rparr>) rest [] = valuesLoop b rest []"
    by (rule valuesLoop_builder_cong) simp
  moreover have "valuesLoop b rest (valuesLoop inner (wheres inner) [])
                   = valuesLoop inner (wheres inner) [] @ valuesLoop b rest []"
    by (rule valuesLoop_acc)
  ultimately show ?case
    using a by (simp add: Let_def split_beta inner_def [symmetric] r_def [symmetric])
qed

section \<open>Calls, case mapping and rendering\<close>

lemma callFn_Nil [simp]: "callFn [] b = b"
  by (simp add: callFn_def)

lemma callFn_Cons [simp]: "callFn (c # cs) b = callFn cs (applyCall b c)"
  by (simp add: callFn_def)

lemma callFn_append: "callFn (xs @ ys) b = callFn ys (callFn xs b)"
  by (simp add: callFn_def)

lemma Where_one_value: "Where b column [v] = b\<lparr>wheres := wheres b @ [WhereBlock column v ''='']\<rparr>"
  by (simp add: Where_def)

lemma Where_two_values:
  "Where b column (v0 # v1 # extra) = b\<lparr>wheres := wheres b @ [WhereBlock column v1 (fmtV v0)]\<rparr>"
  by (simp add: Where_def)

lemma toUpperChar_of_lower:
  assumes "toLowerChar c = l" and "97 \<le> (of_char l :: nat)" and "(of_char l :: nat) \<le> 122"
  shows "toUpperChar c = char_of ((of_char l :: nat) - 32)"
proof (cases "65 \<le> (of_char c :: nat) \<and> (of_char c :: nat) \<le> 90")
  case True
  then have l: "l = char_of ((of_char c :: nat) + 32)"
    using assms(1) by (simp add: toLowerChar_def Let_def)
  have "(of_char l :: nat) = (of_char c :: nat) + 32"
    using True unfolding l by (simp add: of_char_of)
  then show ?thesis using True by (simp add: toUpperChar_def Let_def)
next
  case False
  then have "l = c" using assms(1) by (auto simp add: toLowerChar_def Let_def)
  then show ?thesis using assms by (simp add: toUpperChar_def Let_def)
qed


lemma char_of_upper:
  "char_of (65::nat) = CHR ''A''" "char_of (67::nat) = CHR ''C''" "char_of (68::nat) = CHR ''D''"
  "char_of (69::nat) = CHR ''E''" "char_of (83::nat) = CHR ''S''"
  by code_simp+

lemma ToUpper_asc: "ToLower dir = ''asc'' \<Longrightarrow> ToUpper dir = ''ASC''"
proof -
  assume a: "ToLower dir = ''asc''"
  then obtain x y z where d: "dir = [x, y, z]"
    by (auto simp add: ToLower_def map_eq_Cons_conv)
  from a d have "toLowerChar x = CHR ''a''" "toLowerChar y = CHR ''s''" "toLowerChar z = CHR ''c''"
    by (simp_all add: ToLower_def)
  then have "toUpperChar x = CHR ''A''" "toUpperChar y = CHR ''S''" "toUpperChar z = CHR ''C''"
    by (simp_all add: toUpperChar_of_lower char_of_upper)
  then show ?thesis by (simp add: d ToUpper_def)
qed

lemma ToUpper_desc: "ToLower dir = ''desc'' \<Longrightarrow> ToUpper dir = ''DESC''"
proof -
  assume a: "ToLower dir = ''desc''"
  then obtain w x y z where d: "dir = [w, x, y, z]"
    by (auto simp add: ToLower_def map_eq_Cons_conv)
  from a d have "toLowerChar w = CHR ''d''" "toLowerChar x = CHR ''e''"
    "toLowerChar y = CHR ''s''" "toLowerChar z = CHR ''c''"
    by (simp_all add: ToLower_def)
  then have "toUpperChar w = CHR ''D''" "toUpperChar x = CHR ''E''"
    "toUpperChar y = CHR ''S''" "toUpperChar z = CHR ''C''"
    by (simp_all add: toUpperChar_of_lower char_of_upper)
  then show ?thesis by (simp add: d ToUpper_def)
qed

lemma ToUpper_literal_asc: "ToUpper ''asc'' = ''ASC''"
  by (simp add: ToUpper_def toUpperChar_def char_of_upper)

lemma Join_Cons: "Join (x # xs) sep = x @ (if xs = [] then [] else sep @ Join xs sep)"
  by (cases xs) simp_all

lemma orderByLoop_eq:
  "orderByLoop b obs idx =
     b\<lparr>query := query b @ (if obs = [] then []
        else (if idx > 0 then '', '' else []) @ Join (map OrderByBlock_String obs) '', '')\<rparr>"
proof (induction obs arbitrary: b idx)
  case Nil
  then show ?case by simp
next
  case (Cons x rest)
  show ?case
    by (simp add: Cons.IH WriteString_def Let_def Join_Cons del: Join.simps)
qed

lemma whereLoop_query [simp]:
  "fst (whereLoop (b\<lparr>query := q\<rparr>) bs idx sb wv) = fst (whereLoop b bs idx sb wv)"
  by (rule whereLoop_builder_cong) simp_all


lemma build_invariant:
  "query (callFn calls b) = query b \<and> tableName (callFn calls b) = tableName b
   \<and> prev (callFn calls b) = prev b"
proof (induction calls arbitrary: b)
  case Nil
  then show ?case by simp
next
  case (Cons c calls)
  have "query (applyCall b c) = query b \<and> tableName (applyCall b c) = tableName b
        \<and> prev (applyCall b c) = prev b"
    by (cases c) (simp_all add: Where_def WhereNull_def WhereFn_def Or_def OrderBy_def
        Limit_def Offset_def Let_def)
  then show ?case using Cons.IH [of "applyCall b c"] by simp
qed

lemma buildWhereClause_builder:
  "snd (buildWhereClause b n) = (if wheres b = [] then b else b\<lparr>prev := Some (last (wheres b))\<rparr>)"
  by (simp add: buildWhereClause_def whereLoop_builder)

lemma buildWhereClause_query [simp]:
  "fst (buildWhereClause (b\<lparr>query := q\<rparr>) n) = fst (buildWhereClause b n)"
  by (simp add: buildWhereClause_def)

lemma Get_eq:
  "Get b columns =
     b\<lparr>query := query b @ ''SELECT '' @ Join (if columns = [] then [''*''] else columns) '', ''
          @ '' FROM '' @ tableName b @ whereText b @ orderByText b @ limitText b @ offsetText b
          @ '';'',
       prev := (if wheres b = [] then prev b else Some (last (wheres b)))\<rparr>"
proof (cases "wheres b = []"; cases "orderBys b = []"; cases "limit b"; cases "offset b")
qed (simp_all add: Get_def Let_def WriteString_def split_beta whereText_def orderByText_def
      limitText_def offsetText_def buildWhereClause_builder orderByLoop_eq)

section \<open>The claims about Where\<close>

text \<open>
  C6: the one-value call \<open>Where(col, val)\<close> and the two-value call
  \<open>Where(col, "=", val)\<close> give the same builder, wherever the call stands in the chain;
  the rendered text and the bound values are therefore identical.
\<close>

theorem Where_default_operator:
  "Where b column [val] = Where b column [StrV ''='', val]
   \<and> build name (pre @ WhereCall column [val] # post)
       = build name (pre @ WhereCall column [StrV ''='', val] # post)
   \<and> Builder_String (Get (build name (pre @ WhereCall column [val] # post)) cols)
       = Builder_String (Get (build name (pre @ WhereCall column [StrV ''='', val] # post)) cols)
   \<and> Values (build name (pre @ WhereCall column [val] # post))
       = Values (build name (pre @ WhereCall column [StrV ''='', val] # post))"
proof -
  have eq: "Where c column [val] = Where c column [StrV ''='', val]" for c
    by (simp add: Where_one_value Where_two_values)
  have "build name (pre @ WhereCall column [val] # post)
          = build name (pre @ WhereCall column [StrV ''='', val] # post)"
    by (simp add: build_def callFn_append eq)
  then show ?thesis using eq by simp
qed

text \<open>
  C7: calling \<open>Where\<close> with zero values returns the builder as it was: no entry is
  appended and every field (table name, WHERE list, order-by list, limit, offset) is the
  same, so a chain with such a call builds the same statement as the chain without it.
\<close>

theorem Where_no_values_unchanged:
  "Where b column [] = b
   \<and> build name (pre @ WhereCall column [] # post) = build name (pre @ post)"
  by (simp add: build_def callFn_append Where_def)

text \<open>
  C10: with three or more values \<open>Where\<close> does what the two-value call with the first
  two values does: the first value, formatted, is the operator, the second is the bound
  value, and the remaining values are ignored.
\<close>

theorem Where_extra_values_ignored:
  "Where b column (v0 # v1 # v2 # extra) = Where b column [v0, v1]
   \<and> wheres (Where b column (v0 # v1 # v2 # extra)) = wheres b @ [WhereBlock column v1 (fmtV v0)]
   \<and> build name (pre @ WhereCall column (v0 # v1 # v2 # extra) # post)
       = build name (pre @ WhereCall column [v0, v1] # post)"
  by (simp add: build_def callFn_append Where_two_values)

section \<open>A leading OR marker\<close>

text \<open>
  C2: a statement whose WHERE list starts with an \<open>OrBlock\<close>. The code writes the
  joiner \<open>" OR "\<close> before the first real fragment, so the text is not the text of the
  list without the leading marker.
\<close>

theorem leading_Or_writes_joiner:
  "Builder_String (Get (build ''t'' [OrCall, WhereCall ''a'' [IntV 1]]) [])
     = ''SELECT * FROM t WHERE  OR a = $1;''
   \<and> Builder_String (Get (build ''t'' [WhereCall ''a'' [IntV 1]]) [])
     = ''SELECT * FROM t WHERE a = $1;''"
  by code_simp

section \<open>Order-by entries\<close>

text \<open>
  C8: \<open>OrderBy\<close> appends an entry whose direction is the upper-cased input when the
  lower-cased input is \<open>asc\<close> or \<open>desc\<close> (and then it is \<open>ASC\<close> or \<open>DESC\<close>), and \<open>ASC\<close>
  for every other input, the empty string included; the loop of \<open>Get\<close> writes the
  entries in list order, joined with \<open>", "\<close>.
\<close>

theorem OrderBy_direction:
  "orderBys (OrderBy b column dir) =
     orderBys b @ [OrderByBlock column
       (if ToLower dir = ''asc'' \<or> ToLower dir = ''desc'' then ToUpper dir else ''ASC'')]
   \<and> (ToLower dir = ''asc'' \<longrightarrow> ToUpper dir = ''ASC'')
   \<and> (ToLower dir = ''desc'' \<longrightarrow> ToUpper dir = ''DESC'')
   \<and> orderBys (OrderBy b column []) = orderBys b @ [OrderByBlock column ''ASC'']
   \<and> query (orderByLoop b' obs 0) = query b' @ Join (map OrderByBlock_String obs) '', ''"
proof -
  have "orderBys (OrderBy b column dir) =
     orderBys b @ [OrderByBlock column
       (if ToLower dir = ''asc'' \<or> ToLower dir = ''desc'' then ToUpper dir else ''ASC'')]"
    by (simp add: OrderBy_def Let_def ToUpper_literal_asc)
  moreover have "orderBys (OrderBy b column []) = orderBys b @ [OrderByBlock column ''ASC'']"
    by (simp add: OrderBy_def Let_def ToUpper_literal_asc ToLower_def)
  moreover have "query (orderByLoop b' obs 0) = query b' @ Join (map OrderByBlock_String obs) '', ''"
    by (simp add: orderByLoop_eq)
  ultimately show ?thesis
    using ToUpper_asc ToUpper_desc by blast
qed

theorem OrderBy_direction_witness:
  "ToLower ''DeSc'' = ''desc'' \<and> ToUpper ''DeSc'' = ''DESC''
   \<and> orderBys (OrderBy (Table ''t'') ''price'' ''DeSc'') = [OrderByBlock ''price'' ''DESC'']
   \<and> orderBys (OrderBy (Table ''t'') ''price'' ''up'') = [OrderByBlock ''price'' ''ASC'']
   \<and> query (orderByLoop (Table ''t'') [OrderByBlock ''a'' ''ASC'', OrderByBlock ''b'' ''DESC''] 0)
       = ''a ASC, b DESC''"
proof -
  have h: "ToLower ''DeSc'' = ''desc''"
    by code_simp
  have n: "ToLower ''up'' \<noteq> ''asc'' \<and> ToLower ''up'' \<noteq> ''desc''"
    by code_simp
  show ?thesis
    using h n
      OrderBy_direction [of "Table ''t''" "''price''" "''DeSc''" "Table ''t''"
        "[OrderByBlock ''a'' ''ASC'', OrderByBlock ''b'' ''DESC'']"]
      OrderBy_direction [of "Table ''t''" "''price''" "''up''" "Table ''t''" "[]"]
    by (simp add: Table_def)
qed

section \<open>The rendered statement\<close>

text \<open>
  C9: the text rendered for a built statement is, in this order, \<open>SELECT\<close> with the
  comma-joined columns (\<open>*\<close> when none are given), \<open>FROM\<close> with the table name, the
  WHERE clause when the WHERE list is not empty, the ORDER BY entries when there are any,
  \<open>LIMIT n\<close> when a limit is set, \<open>OFFSET n\<close> when an offset is set, and a semicolon.
\<close>

theorem Get_renders_in_fixed_order:
  "Builder_String (Get (build name calls) columns) =
     ''SELECT '' @ (if columns = [] then ''*'' else Join columns '', '')
     @ '' FROM '' @ name
     @ (if wheres (build name calls) = [] then []
        else '' WHERE '' @ fst (fst (buildWhereClause (build name calls) 0)))
     @ (if orderBys (build name calls) = [] then []
        else '' ORDER BY '' @ Join (map OrderByBlock_String (orderBys (build name calls))) '', '')
     @ (case limit (build name calls) of None \<Rightarrow> []
        | Some (LimitBlock n) \<Rightarrow> '' LIMIT '' @ itoa n)
     @ (case offset (build name calls) of None \<Rightarrow> []
        | Some (OffsetBlock n) \<Rightarrow> '' OFFSET '' @ itoa n)
     @ '';''"
proof -
  define b where "b = build name calls"
  have q: "query b = []" and t: "tableName b = name"
    using build_invariant [of calls "Table name"] by (simp_all add: b_def build_def Table_def)
  have l: "limitText b = (case limit b of None \<Rightarrow> [] | Some (LimitBlock n) \<Rightarrow> '' LIMIT '' @ itoa n)"
    by (simp add: limitText_def split: option.splits LimitBlock.splits)
  have off: "offsetText b
      = (case offset b of None \<Rightarrow> [] | Some (OffsetBlock n) \<Rightarrow> '' OFFSET '' @ itoa n)"
    by (simp add: offsetText_def split: option.splits OffsetBlock.splits)
  have "Builder_String (Get b columns) =
     ''SELECT '' @ (if columns = [] then ''*'' else Join columns '', '')
     @ '' FROM '' @ name
     @ (if wheres b = [] then [] else '' WHERE '' @ fst (fst (buildWhereClause b 0)))
     @ (if orderBys b = [] then []
        else '' ORDER BY '' @ Join (map OrderByBlock_String (orderBys b)) '', '')
     @ (case limit b of None \<Rightarrow> [] | Some (LimitBlock n) \<Rightarrow> '' LIMIT '' @ itoa n)
     @ (case offset b of None \<Rightarrow> [] | Some (OffsetBlock n) \<Rightarrow> '' OFFSET '' @ itoa n)
     @ '';''"
    unfolding l [symmetric] off [symmetric]
    by (simp add: Builder_String_def Get_eq q t whereText_def orderByText_def)
  then show ?thesis
    unfolding b_def .
qed

end
